theory Spec2Isabelle
  imports Complex_Main
begin

section \<open>The paginated REST client of \<^verbatim>\<open>src/apis/rest-pagination.py\<close>\<close>

text \<open>
  The embedding follows the class \<^verbatim>\<open>PaginatedAPIClient\<close> method by method.
  Everything outside the class is an explicit environment: what the transport answers to
  the k-th GET, how long that GET takes, and how much time passes elsewhere. The clock
  and the log of issued requests are threaded through every call. Python floats are
  read as exact reals; JSON numbers are read as integers.
\<close>

subsection \<open>Python values and exceptions\<close>

datatype json =
    JNull
  | JBool bool
  | JInt int
  | JStr string
  | JArr "json list"
  | JObj "(string \<times> json) list"

datatype request_error = Timeout | ConnectionError | HTTPError int | JSONDecodeError

datatype py_exception =
    RequestException request_error
  | AttributeError
  | ValueError
  | TypeError
  | ZeroDivisionError

text \<open>Python truthiness: \<^verbatim>\<open>None\<close>, \<^verbatim>\<open>False\<close>, \<^verbatim>\<open>0\<close>, \<^verbatim>\<open>""\<close>,
  \<^verbatim>\<open>[]\<close> and \<^verbatim>\<open>{}\<close> are false, every other value is true.\<close>

fun truthy :: "json \<Rightarrow> bool" where
  "truthy JNull = False"
| "truthy (JBool b) = b"
| "truthy (JInt n) = (n \<noteq> 0)"
| "truthy (JStr s) = (s \<noteq> [])"
| "truthy (JArr xs) = (xs \<noteq> [])"
| "truthy (JObj kvs) = (kvs \<noteq> [])"

text \<open>\<^verbatim>\<open>obj.get(key, default)\<close>: only a dict has the method.\<close>

fun py_get :: "json \<Rightarrow> string \<Rightarrow> json \<Rightarrow> py_exception + json" where
  "py_get (JObj kvs) k d = Inr (case map_of kvs k of None \<Rightarrow> d | Some v \<Rightarrow> v)"
| "py_get _ k d = Inl AttributeError"

text \<open>\<^verbatim>\<open>for item in obj\<close>: a list gives its elements, a string its characters,
  a dict its keys; the other values are not iterable.\<close>

fun py_iter :: "json \<Rightarrow> py_exception + json list" where
  "py_iter (JArr xs) = Inr xs"
| "py_iter (JStr s) = Inr (map (\<lambda>ch. JStr [ch]) s)"
| "py_iter (JObj kvs) = Inr (map (\<lambda>kv. JStr (fst kv)) kvs)"
| "py_iter _ = Inl TypeError"

definition lstrip_slash :: "string \<Rightarrow> string" where
  "lstrip_slash s = dropWhile (\<lambda>ch. ch = CHR ''/'') s"

definition rstrip_slash :: "string \<Rightarrow> string" where
  "rstrip_slash s = rev (dropWhile (\<lambda>ch. ch = CHR ''/'') (rev s))"

definition and_then :: "'e + 'a \<Rightarrow> ('a \<Rightarrow> 'e + 'b) \<Rightarrow> 'e + 'b" where
  "and_then r f = (case r of Inl e \<Rightarrow> Inl e | Inr v \<Rightarrow> f v)"

subsection \<open>Requests, responses and the environment\<close>

record request =
  url :: string
  limit_param :: int
  cursor_param :: "json option"
  authorization :: "string option"

text \<open>The header \<^verbatim>\<open>X-RateLimit-Remaining\<close> is kept as what \<^verbatim>\<open>int()\<close> makes of
  its text: missing, the text of an integer, or text that \<^verbatim>\<open>int()\<close> rejects.\<close>

datatype rate_header = NoHeader | IntText int | OtherText string

text \<open>\<^verbatim>\<open>body\<close> is what \<^verbatim>\<open>response.json()\<close> decodes; \<open>None\<close> when the text is
  not JSON.\<close>

record response =
  status_code :: int
  rate_limit_header :: rate_header
  body :: "json option"

datatype get_result = Raises request_error | Returns response

text \<open>
  The environment. \<open>respond k req\<close> is what \<^verbatim>\<open>session.get\<close> does on the k-th GET
  this client issues, \<open>latency k\<close> the time that GET takes, \<open>pause k\<close> the time that
  passes between the end of the previous statement and the moment the gate reads the
  clock for the k-th GET, \<open>overshoot k\<close> the time by which the gate's sleep before the
  k-th GET exceeds the requested duration. \<open>cancel_requested k\<close> says whether the caller
  has raised a cancellation signal before the k-th GET.
\<close>

record env =
  respond :: "nat \<Rightarrow> request \<Rightarrow> get_result"
  latency :: "nat \<Rightarrow> real"
  pause :: "nat \<Rightarrow> real"
  overshoot :: "nat \<Rightarrow> real"
  cancel_requested :: "nat \<Rightarrow> bool"

text \<open>The clock, and the log of the GETs issued so far (oldest first), each with the
  time at which it was issued.\<close>

record world =
  clock :: real
  sent :: "(real \<times> request) list"

subsection \<open>The data class and the client\<close>

record APIResponse =
  data :: json
  next_cursor :: json
  total_count :: json
  rate_limit_remaining :: int

record PaginatedAPIClient =
  base_url :: string
  api_key :: "string option"
  max_workers :: int
  min_interval :: real
  last_request_time :: real
  session_authorization :: "string option"

definition sentinel :: APIResponse where
  "sentinel = \<lparr>data = JArr [], next_cursor = JNull, total_count = JNull,
     rate_limit_remaining = 0\<rparr>"

text \<open>\<^verbatim>\<open>__init__\<close> (lines 28-43).\<close>

definition init :: "string \<Rightarrow> string option \<Rightarrow> int \<Rightarrow> real \<Rightarrow> py_exception + PaginatedAPIClient" where
  "init base key workers requests_per_second =
     (if requests_per_second = 0 then Inl ZeroDivisionError
      else Inr \<lparr>base_url = rstrip_slash base,
                api_key = key,
                max_workers = workers,
                min_interval = 1 / requests_per_second,
                last_request_time = 0,
                session_authorization =
                  (case key of None \<Rightarrow> None
                   | Some k \<Rightarrow> if k = [] then None else Some (''Bearer '' @ k))\<rparr>)"

text \<open>\<^verbatim>\<open>_rate_limited_get\<close> (lines 45-55). The recorded time is written only when
  \<^verbatim>\<open>session.get\<close> returns: when it raises, line 53 is not reached.\<close>

definition rate_limited_get ::
  "env \<Rightarrow> PaginatedAPIClient \<Rightarrow> world \<Rightarrow> string \<Rightarrow> int \<Rightarrow> json option
     \<Rightarrow> (request_error + response) \<times> PaginatedAPIClient \<times> world" where
  "rate_limited_get e c w u page_limit cur =
     (let k = length (sent w);
          t_read = clock w + pause e k;
          elapsed = t_read - last_request_time c;
          t_issue = (if elapsed < min_interval c
                     then t_read + (min_interval c - elapsed) + overshoot e k
                     else t_read);
          req = \<lparr>url = u, limit_param = page_limit, cursor_param = cur,
                  authorization = session_authorization c\<rparr>;
          t_done = t_issue + latency e k;
          w' = \<lparr>clock = t_done, sent = sent w @ [(t_issue, req)]\<rparr>
      in case respond e k req of
           Raises err \<Rightarrow> (Inl err, c, w')
         | Returns r \<Rightarrow> (Inr r, c\<lparr>last_request_time := t_done\<rparr>, w'))"

text \<open>The body of the \<^verbatim>\<open>try\<close> of \<^verbatim>\<open>fetch_page\<close> after the GET (lines 71-82):
  \<^verbatim>\<open>raise_for_status\<close>, \<^verbatim>\<open>json()\<close>, then the four constructor arguments in order.\<close>

definition raise_for_status :: "response \<Rightarrow> py_exception + unit" where
  "raise_for_status r =
     (if 400 \<le> status_code r \<and> status_code r < 600
      then Inl (RequestException (HTTPError (status_code r))) else Inr ())"

definition response_json :: "response \<Rightarrow> py_exception + json" where
  "response_json r =
     (case body r of None \<Rightarrow> Inl (RequestException JSONDecodeError) | Some b \<Rightarrow> Inr b)"

definition header_int :: "rate_header \<Rightarrow> py_exception + int" where
  "header_int h =
     (case h of NoHeader \<Rightarrow> Inr 999 | IntText n \<Rightarrow> Inr n | OtherText s \<Rightarrow> Inl ValueError)"

text \<open>\<^verbatim>\<open>body.get(k1) or body.get("pagination", {}).get(k2)\<close>: the right operand
  is evaluated only when the left one is false.\<close>

definition get_or_nested :: "json \<Rightarrow> string \<Rightarrow> string \<Rightarrow> py_exception + json" where
  "get_or_nested b k1 k2 =
     and_then (py_get b k1 JNull) (\<lambda>v.
       if truthy v then Inr v
       else and_then (py_get b ''pagination'' (JObj [])) (\<lambda>pg. py_get pg k2 JNull))"

definition page_of_response :: "response \<Rightarrow> py_exception + APIResponse" where
  "page_of_response r =
     and_then (raise_for_status r) (\<lambda>_.
     and_then (response_json r) (\<lambda>b.
     and_then (py_get b ''data'' (JArr [])) (\<lambda>d.
     and_then (get_or_nested b ''next_cursor'' ''next'') (\<lambda>nc.
     and_then (get_or_nested b ''total_count'' ''total'') (\<lambda>tc.
     and_then (header_int (rate_limit_header r)) (\<lambda>rl.
       Inr \<lparr>data = d, next_cursor = nc, total_count = tc,
            rate_limit_remaining = rl\<rparr>))))))"

text \<open>The \<^verbatim>\<open>except requests.exceptions.RequestException\<close> clause (lines 84-86).\<close>

definition except_request_exception :: "py_exception + APIResponse \<Rightarrow> py_exception + APIResponse" where
  "except_request_exception r =
     (case r of
        Inl (RequestException err) \<Rightarrow> Inr sentinel
      | Inl other \<Rightarrow> Inl other
      | Inr p \<Rightarrow> Inr p)"

text \<open>The \<^verbatim>\<open>try\<close> block on the transport's reaction, and what \<^verbatim>\<open>fetch_page\<close>
  returns or raises on it.\<close>

definition try_body :: "get_result \<Rightarrow> py_exception + APIResponse" where
  "try_body g =
     (case g of Raises err \<Rightarrow> Inl (RequestException err)
      | Returns r \<Rightarrow> page_of_response r)"

definition page_of :: "get_result \<Rightarrow> py_exception + APIResponse" where
  "page_of g = except_request_exception (try_body g)"

definition page_url :: "PaginatedAPIClient \<Rightarrow> string \<Rightarrow> string" where
  "page_url c endpoint = base_url c @ ''/'' @ lstrip_slash endpoint"

definition cursor_of :: "json \<Rightarrow> json option" where
  "cursor_of cur = (if truthy cur then Some cur else None)"

text \<open>\<^verbatim>\<open>fetch_page\<close> (lines 57-86).\<close>

definition fetch_page ::
  "env \<Rightarrow> PaginatedAPIClient \<Rightarrow> world \<Rightarrow> string \<Rightarrow> json \<Rightarrow> int
     \<Rightarrow> (py_exception + APIResponse) \<times> PaginatedAPIClient \<times> world" where
  "fetch_page e c w endpoint cur page_size =
     (case rate_limited_get e c w (page_url c endpoint) page_size (cursor_of cur) of
        (Inl err, c', w') \<Rightarrow> (page_of (Raises err), c', w')
      | (Inr r, c', w') \<Rightarrow> (page_of (Returns r), c', w'))"

subsection \<open>The walker: \<^verbatim>\<open>fetch_all\<close> (lines 88-120)\<close>

text \<open>
  The generator is modelled for a consumer that iterates it to its end: \<open>yielded\<close>
  collects what it yields. The two \<^verbatim>\<open>break\<close>s give the outcomes
  \<open>Truncated_by_max_pages\<close> (line 101) and \<open>Completed\<close> (line 115); an exception that
  leaves the generator gives \<open>Raised\<close>.
\<close>

record walker =
  cursor :: json
  page_count :: int
  yielded :: "json list"
  the_client :: PaginatedAPIClient
  the_world :: world

datatype outcome = Completed | Truncated_by_max_pages | Raised py_exception

datatype step = Stop outcome walker | Continue walker

text \<open>\<^verbatim>\<open>max_pages and page_count >= max_pages\<close> (line 99).\<close>

definition limit_reached :: "int option \<Rightarrow> int \<Rightarrow> bool" where
  "limit_reached max_pages n =
     (case max_pages of None \<Rightarrow> False | Some m \<Rightarrow> m \<noteq> 0 \<and> n \<ge> m)"

text \<open>Lines 118-120.\<close>

definition cooldown :: "APIResponse \<Rightarrow> world \<Rightarrow> world" where
  "cooldown result w =
     (if rate_limit_remaining result < 5 then w\<lparr>clock := clock w + 5\<rparr> else w)"

text \<open>One iteration of \<^verbatim>\<open>while True\<close>.\<close>

definition fetch_all_body :: "env \<Rightarrow> string \<Rightarrow> int \<Rightarrow> int option \<Rightarrow> walker \<Rightarrow> step" where
  "fetch_all_body e endpoint page_size max_pages s =
     (if limit_reached max_pages (page_count s) then Stop Truncated_by_max_pages s
      else
        case fetch_page e (the_client s) (the_world s) endpoint (cursor s) page_size of
          (Inl ex, c', w') \<Rightarrow> Stop (Raised ex) (s\<lparr>the_client := c', the_world := w'\<rparr>)
        | (Inr result, c', w') \<Rightarrow>
            (case py_iter (data result) of
               Inl ex \<Rightarrow> Stop (Raised ex) (s\<lparr>the_client := c', the_world := w'\<rparr>)
             | Inr items \<Rightarrow>
                 (let s1 = \<lparr>cursor = next_cursor result,
                            page_count = page_count s + 1,
                            yielded = yielded s @ items,
                            the_client = c', the_world = w'\<rparr>
                  in if \<not> truthy (next_cursor result) \<or> \<not> truthy (data result)
                     then Stop Completed s1
                     else Continue (s1\<lparr>the_world := cooldown result w'\<rparr>))))"

partial_function (option) fetch_all_loop ::
  "env \<Rightarrow> string \<Rightarrow> int \<Rightarrow> int option \<Rightarrow> walker \<Rightarrow> (outcome \<times> walker) option" where
  "fetch_all_loop e endpoint page_size max_pages s =
     (case fetch_all_body e endpoint page_size max_pages s of
        Stop out s' \<Rightarrow> Some (out, s')
      | Continue s' \<Rightarrow> fetch_all_loop e endpoint page_size max_pages s')"

definition start :: "PaginatedAPIClient \<Rightarrow> world \<Rightarrow> walker" where
  "start c w = \<lparr>cursor = JNull, page_count = 0, yielded = [], the_client = c, the_world = w\<rparr>"

definition fetch_all ::
  "env \<Rightarrow> PaginatedAPIClient \<Rightarrow> world \<Rightarrow> string \<Rightarrow> int \<Rightarrow> int option
     \<Rightarrow> (outcome \<times> walker) option" where
  "fetch_all e c w endpoint page_size max_pages =
     fetch_all_loop e endpoint page_size max_pages (start c w)"

text \<open>The number of GETs a walker has issued since the world \<open>w\<close>.\<close>

definition fetches :: "world \<Rightarrow> walker \<Rightarrow> nat" where
  "fetches w s = length (sent (the_world s)) - length (sent w)"

subsection \<open>The fan-out: \<^verbatim>\<open>fetch_parallel\<close> (lines 122-145)\<close>

text \<open>
  The thread pool is modelled by the order in which the submitted calls complete:
  \<open>order\<close> lists the positions of \<open>endpoints\<close> in completion order, and each call of
  \<^verbatim>\<open>fetch_page\<close> runs as a whole when its turn comes. The timing of interleaved threads
  is outside the model.
\<close>

text \<open>\<^verbatim>\<open>max_workers or self.max_workers\<close>.\<close>

definition workers_of :: "int option \<Rightarrow> PaginatedAPIClient \<Rightarrow> int" where
  "workers_of mw c =
     (case mw of None \<Rightarrow> max_workers c | Some n \<Rightarrow> if n \<noteq> 0 then n else max_workers c)"

text \<open>\<^verbatim>\<open>future.result()\<close> inside \<^verbatim>\<open>try\<close>/\<^verbatim>\<open>except Exception\<close> (lines 139-143).\<close>

definition result_or_sentinel :: "py_exception + APIResponse \<Rightarrow> APIResponse" where
  "result_or_sentinel r = (case r of Inl ex \<Rightarrow> sentinel | Inr p \<Rightarrow> p)"

fun as_completed ::
  "env \<Rightarrow> string list \<Rightarrow> nat list
     \<Rightarrow> (string \<rightharpoonup> APIResponse) \<times> PaginatedAPIClient \<times> world
     \<Rightarrow> (string \<rightharpoonup> APIResponse) \<times> PaginatedAPIClient \<times> world" where
  "as_completed e endpoints [] acc = acc"
| "as_completed e endpoints (i # order) (results, c, w) =
     (case fetch_page e c w (endpoints ! i) JNull 100 of
        (r, c', w') \<Rightarrow>
          as_completed e endpoints order
            (results(endpoints ! i \<mapsto> result_or_sentinel r), c', w'))"

definition fetch_parallel ::
  "env \<Rightarrow> PaginatedAPIClient \<Rightarrow> world \<Rightarrow> string list \<Rightarrow> int option \<Rightarrow> nat list
     \<Rightarrow> py_exception + (string \<rightharpoonup> APIResponse) \<times> PaginatedAPIClient \<times> world" where
  "fetch_parallel e c w endpoints mw order =
     (if workers_of mw c \<le> 0 then Inl ValueError
      else Inr (as_completed e endpoints order (Map.empty, c, w)))"

subsection \<open>Vocabulary of the statements\<close>

text \<open>The request \<^verbatim>\<open>fetch_page\<close> builds (lines 64-67 and the session's header).\<close>

definition page_request :: "PaginatedAPIClient \<Rightarrow> string \<Rightarrow> json \<Rightarrow> int \<Rightarrow> request" where
  "page_request c endpoint cur page_size =
     \<lparr>url = page_url c endpoint, limit_param = page_size, cursor_param = cursor_of cur,
      authorization = session_authorization c\<rparr>"

text \<open>A page whose \<open>data\<close> is a list of items, and its items.\<close>

definition is_item_list :: "APIResponse \<Rightarrow> bool" where
  "is_item_list p = (case data p of JArr xs \<Rightarrow> True | _ \<Rightarrow> False)"

definition items_of :: "APIResponse \<Rightarrow> json list" where
  "items_of p = (case data p of JArr xs \<Rightarrow> xs | _ \<Rightarrow> [])"

text \<open>A page after which the walker goes on: items, and a cursor that line 114 takes as
  present (a non-empty token). A page at which it ends: no such cursor, or no item.\<close>

definition has_more :: "APIResponse \<Rightarrow> bool" where
  "has_more p = (is_item_list p \<and> items_of p \<noteq> [] \<and> truthy (next_cursor p))"

definition is_final :: "APIResponse \<Rightarrow> bool" where
  "is_final p = (is_item_list p \<and> (\<not> truthy (next_cursor p) \<or> items_of p = []))"

text \<open>\<open>served e c endpoint page_size k cur ps\<close>: from the k-th GET on, the page fetcher,
  asked with the cursor \<open>cur\<close> and then with the cursor of each page it returned, returns the
  pages \<open>ps\<close> in this order.\<close>

fun served ::
  "env \<Rightarrow> PaginatedAPIClient \<Rightarrow> string \<Rightarrow> int \<Rightarrow> nat \<Rightarrow> json \<Rightarrow> APIResponse list \<Rightarrow> bool" where
  "served e c endpoint page_size k cur [] = True"
| "served e c endpoint page_size k cur (p # ps) =
     (page_of (respond e k (page_request c endpoint cur page_size)) = Inr p
      \<and> served e c endpoint page_size (Suc k) (next_cursor p) ps)"

text \<open>A transport whose reaction depends on the request only, not on when it arrives.\<close>

definition stateless :: "env \<Rightarrow> bool" where
  "stateless e = (\<forall>k req. respond e k req = respond e 0 req)"

text \<open>A completion order of \<open>n\<close> submitted calls names each of them once.\<close>

definition is_completion_order :: "nat \<Rightarrow> nat list \<Rightarrow> bool" where
  "is_completion_order n order = (distinct order \<and> set order = {..<n})"

text \<open>The walker after one more iteration.\<close>

definition after :: "env \<Rightarrow> string \<Rightarrow> int \<Rightarrow> int option \<Rightarrow> walker \<Rightarrow> walker" where
  "after e endpoint page_size max_pages s =
     (case fetch_all_body e endpoint page_size max_pages s of Stop out s' \<Rightarrow> s' | Continue s' \<Rightarrow> s')"

definition issue_times :: "world \<Rightarrow> real list" where
  "issue_times w = map fst (sent w)"


subsection \<open>Concrete environments\<close>

text \<open>A transport that answers at once; a server of three pages, driven by the cursor of the
  request: items \<open>[a, b]\<close> with cursor \<open>p2\<close>, then \<open>[c]\<close> with cursor \<open>p3\<close> and a
  remaining budget of 3, then no item and no cursor.\<close>

definition ok :: "json \<Rightarrow> rate_header \<Rightarrow> get_result" where
  "ok b h = Returns \<lparr>status_code = 200, rate_limit_header = h, body = Some b\<rparr>"

definition three_pages :: "nat \<Rightarrow> request \<Rightarrow> get_result" where
  "three_pages k req =
     (case cursor_param req of
        None \<Rightarrow> ok (JObj [(''data'', JArr [JStr ''a'', JStr ''b'']), (''next_cursor'', JStr ''p2'')]) NoHeader
      | Some cur \<Rightarrow>
          if cur = JStr ''p2''
          then ok (JObj [(''data'', JArr [JStr ''c'']), (''next_cursor'', JStr ''p3'')]) (IntText 3)
          else ok (JObj [(''data'', JArr [])]) NoHeader)"

definition instant :: "(nat \<Rightarrow> request \<Rightarrow> get_result) \<Rightarrow> env" where
  "instant srv = \<lparr>respond = srv, latency = (\<lambda>k. 0), pause = (\<lambda>k. 0), overshoot = (\<lambda>k. 0),
     cancel_requested = (\<lambda>k. False)\<rparr>"

definition client10 :: PaginatedAPIClient where
  "client10 = \<lparr>base_url = ''https://api'', api_key = None, max_workers = 5,
     min_interval = 1 / 10, last_request_time = 0, session_authorization = None\<rparr>"

definition world0 :: world where
  "world0 = \<lparr>clock = 1000, sent = []\<rparr>"

definition page :: "json list \<Rightarrow> json \<Rightarrow> int \<Rightarrow> APIResponse" where
  "page xs cur rl = \<lparr>data = JArr xs, next_cursor = cur, total_count = JNull, rate_limit_remaining = rl\<rparr>"

text \<open>Status 200 with the JSON array \<open>[]\<close> as body.\<close>

definition array_body :: "nat \<Rightarrow> request \<Rightarrow> get_result" where
  "array_body k req = ok (JArr []) NoHeader"

text \<open>The first GET times out; every later one would return a page.\<close>

definition timeout_then_ok :: "nat \<Rightarrow> request \<Rightarrow> get_result" where
  "timeout_then_ok k req =
     (if k = 0 then Raises Timeout else ok (JObj [(''data'', JArr [JStr ''a''])]) NoHeader)"

text \<open>The second GET is refused at once; the others return a page.\<close>

definition refused_once :: "nat \<Rightarrow> request \<Rightarrow> get_result" where
  "refused_once k req =
     (if k = 1 then Raises ConnectionError else ok (JObj [(''data'', JArr [JStr ''a''])]) NoHeader)"

text \<open>A server that times out on one URL and returns a page naming the URL on the others.\<close>

definition by_url :: "nat \<Rightarrow> request \<Rightarrow> get_result" where
  "by_url k req =
     (if url req = ''https://api/bad'' then Raises Timeout
      else ok (JObj [(''data'', JArr [JStr (url req)])]) NoHeader)"

text \<open>Status 503 on every GET.\<close>

definition unavailable :: "nat \<Rightarrow> request \<Rightarrow> get_result" where
  "unavailable k req = Returns \<lparr>status_code = 503, rate_limit_header = NoHeader, body = None\<rparr>"

text \<open>The same transport, with the caller's cancellation signal raised from the start.\<close>

definition cancelled :: "(nat \<Rightarrow> request \<Rightarrow> get_result) \<Rightarrow> env" where
  "cancelled srv = (instant srv)\<lparr>cancel_requested := (\<lambda>k. True)\<rparr>"

text \<open>A caller that fetches the first page of each endpoint in turn:
  \<^verbatim>\<open>for ep in endpoints: client.fetch_page(ep)\<close>.\<close>

fun fetch_each :: "env \<Rightarrow> PaginatedAPIClient \<Rightarrow> world \<Rightarrow> string list \<Rightarrow> PaginatedAPIClient \<times> world" where
  "fetch_each e c w [] = (c, w)"
| "fetch_each e c w (ep # eps) =
     (case fetch_page e c w ep JNull 100 of (r, c', w') \<Rightarrow> fetch_each e c' w' eps)"

text \<open>The time between each request and the next.\<close>

fun gaps :: "real list \<Rightarrow> real list" where
  "gaps (t1 # t2 # ts) = (t2 - t1) # gaps (t2 # ts)"
| "gaps ts = []"

text \<open>The walker over the three pages after its first iteration.\<close>

definition walker1 :: walker where
  "walker1 = after (instant three_pages) ''/items'' 2 None (start client10 world0)"

text \<open>The same server with a healthy endpoint in place of the failing one: it returns a
  page with no item, no cursor and a remaining budget of 0.\<close>

definition empty_at_bad :: "nat \<Rightarrow> request \<Rightarrow> get_result" where
  "empty_at_bad k req =
     (if url req = ''https://api/bad'' then ok (JObj [(''data'', JArr [])]) (IntText 0)
      else ok (JObj [(''data'', JArr [JStr (url req)])]) NoHeader)"

text \<open>What \<^verbatim>\<open>fetch_parallel\<close> returns under a key.\<close>

definition result_at ::
  "py_exception + (string \<rightharpoonup> APIResponse) \<times> PaginatedAPIClient \<times> world \<Rightarrow> string
     \<Rightarrow> APIResponse option" where
  "result_at r ep = (case r of Inl ex \<Rightarrow> None | Inr (res, c, w) \<Rightarrow> res ep)"

section \<open>Properties\<close>

subsection \<open>Rule sets for evaluation\<close>

lemmas page_defs = page_of_def try_body_def page_of_response_def except_request_exception_def
  raise_for_status_def response_json_def header_int_def get_or_nested_def and_then_def
  page_request_def page_url_def lstrip_slash_def cursor_of_def

lemmas run_defs = fetch_all_def start_def fetch_all_loop.simps fetch_all_body_def
  limit_reached_def fetch_page_def rate_limited_get_def cooldown_def fetches_def
  issue_times_def Let_def

lemmas env_defs = instant_def ok_def client10_def world0_def

lemmas walk_defs = after_def fetch_all_body_def start_def limit_reached_def fetch_page_def
  rate_limited_get_def cooldown_def issue_times_def Let_def

subsection \<open>The constructor\<close>

lemma init_min_interval:
  "r \<noteq> 0 \<Longrightarrow> \<exists>c. init b k m r = Inr c \<and> min_interval c = 1 / r \<and> last_request_time c = 0"
  by (simp add: init_def)

text \<open>The client of the examples is the one built for 10 requests per second.\<close>

lemma init_client10: "init ''https://api/'' None 5 10 = Inr client10"
  by (simp add: init_def client10_def rstrip_slash_def)

subsection \<open>One call of the page fetcher\<close>

lemma fetch_page_result:
  "fst (fetch_page e c w endpoint cur psz) =
     page_of (respond e (length (sent w)) (page_request c endpoint cur psz))"
  by (simp add: fetch_page_def rate_limited_get_def page_request_def Let_def
      split: get_result.splits)

lemma fetch_page_world:
  "snd (snd (fetch_page e c w endpoint cur psz)) =
     snd (snd (rate_limited_get e c w (page_url c endpoint) psz (cursor_of cur)))"
  by (simp add: fetch_page_def rate_limited_get_def Let_def split: get_result.splits)

lemma fetch_page_sent:
  "\<exists>t. sent (snd (snd (fetch_page e c w endpoint cur psz))) =
     sent w @ [(t, page_request c endpoint cur psz)]"
  by (simp add: fetch_page_def rate_limited_get_def page_request_def Let_def
      split: get_result.splits)

lemma fetch_page_client:
  "base_url (fst (snd (fetch_page e c w endpoint cur psz))) = base_url c \<and>
   session_authorization (fst (snd (fetch_page e c w endpoint cur psz))) = session_authorization c \<and>
   min_interval (fst (snd (fetch_page e c w endpoint cur psz))) = min_interval c"
  by (simp add: fetch_page_def rate_limited_get_def Let_def split: get_result.splits)

lemma page_request_cong:
  "base_url c' = base_url c \<Longrightarrow> session_authorization c' = session_authorization c
   \<Longrightarrow> page_request c' = page_request c"
  by (simp add: page_request_def page_url_def fun_eq_iff)

lemma served_cong:
  "base_url c' = base_url c \<Longrightarrow> session_authorization c' = session_authorization c
   \<Longrightarrow> served e c' ep psz k cur ps = served e c ep psz k cur ps"
proof (induction ps arbitrary: k cur)
  case Nil
  show ?case by simp
next
  case (Cons p ps)
  have "page_request c' = page_request c"
    using Cons.prems by (rule page_request_cong)
  then show ?case
    using Cons.IH[OF Cons.prems] by simp
qed

text \<open>
  C2, as the code has it. When the GET raises a \<^verbatim>\<open>RequestException\<close> (a timeout, a
  connection error), or returns a status from 400 to 599, or returns a body that is not
  JSON, \<^verbatim>\<open>fetch_page\<close> returns the sentinel page: no item, no cursor, no total count, a
  remaining budget of zero. (\<^verbatim>\<open>response.json()\<close> raises a \<^verbatim>\<open>RequestException\<close> as of
  requests 2.27.)
\<close>

theorem fetch_page_sentinel_on_request_exception:
  assumes "respond e (length (sent w)) (page_request c endpoint cur page_size) = g"
    and "(\<exists>err. g = Raises err)
         \<or> (\<exists>r. g = Returns r \<and> ((400 \<le> status_code r \<and> status_code r < 600) \<or> body r = None))"
  shows "fst (fetch_page e c w endpoint cur page_size) = Inr sentinel"
proof -
  have "page_of g = Inr sentinel"
    using assms(2)
    by (auto simp: page_of_def try_body_def page_of_response_def except_request_exception_def
        raise_for_status_def response_json_def and_then_def)
  then show ?thesis
    using assms(1) by (simp add: fetch_page_result)
qed

theorem fetch_page_sentinel_on_request_exception_witness:
  "fst (fetch_page (instant unavailable) client10 world0 ''/items'' JNull 100) = Inr sentinel"
  using fetch_page_sentinel_on_request_exception[of "instant unavailable" world0 client10
      "''/items''" JNull 100 "Returns \<lparr>status_code = 503, rate_limit_header = NoHeader, body = None\<rparr>"]
  by (simp add: instant_def unavailable_def)

text \<open>C2 as stated fails: a response with status 200 whose body is a JSON array makes
  \<^verbatim>\<open>body.get\<close> raise \<^verbatim>\<open>AttributeError\<close>, which the \<^verbatim>\<open>except\<close> clause does not catch.\<close>

theorem fetch_page_propagates_counterexample:
  "fst (fetch_page (instant array_body) client10 world0 ''/items'' JNull 100) = Inl AttributeError"
  by (simp add: run_defs env_defs array_body_def page_defs)

text \<open>
  C3. \<^verbatim>\<open>fetch_page\<close> does not retry: when the first GET times out it returns the sentinel
  page after that single GET, although the next GET would have returned a page.
\<close>

theorem fetch_page_does_not_retry:
  "fetch_page (instant timeout_then_ok) client10 world0 ''/items'' JNull 100 =
     (Inr sentinel, client10,
      \<lparr>clock = 1000, sent = [(1000, page_request client10 ''/items'' JNull 100)]\<rparr>)"
  by (simp add: run_defs env_defs timeout_then_ok_def page_defs)

subsection \<open>The gate\<close>

text \<open>The gate issues a request no earlier than the minimum interval after the recorded
  time, and no earlier than the moment it was entered.\<close>

lemma gate_waits:
  assumes "rate_limited_get e c w u l cur = (r, c', w')"
    and "0 \<le> pause e (length (sent w))" and "0 \<le> overshoot e (length (sent w))"
  shows "last (issue_times w') \<ge> last_request_time c + min_interval c
         \<and> last (issue_times w') \<ge> clock w"
  using assms
  by (auto simp: rate_limited_get_def issue_times_def Let_def split: get_result.splits if_splits)

text \<open>
  C4. With 10 requests per second the minimum interval is 1/10. Of three successive
  requests through the gate, the second is refused at once; line 53 is skipped, the
  recorded time stays that of the first request, and the third request is issued with no
  delay after the second.
\<close>

theorem failed_request_not_spaced:
  "gaps (issue_times (snd (fetch_each (instant refused_once) client10 world0
      [''/a'', ''/b'', ''/c'']))) = [1 / 10, 0]"
  by (simp add: run_defs env_defs refused_once_def page_defs)

subsection \<open>The walker: pages in order\<close>

lemma body_more:
  assumes "page_of (respond e (length (sent (the_world s)))
              (page_request (the_client s) ep (cursor s) psz)) = Inr p"
    and "has_more p" and "\<not> limit_reached mp (page_count s)"
  shows "\<exists>s'. fetch_all_body e ep psz mp s = Continue s'
           \<and> cursor s' = next_cursor p
           \<and> page_count s' = page_count s + 1
           \<and> yielded s' = yielded s @ items_of p
           \<and> length (sent (the_world s')) = Suc (length (sent (the_world s)))
           \<and> base_url (the_client s') = base_url (the_client s)
           \<and> session_authorization (the_client s') = session_authorization (the_client s)"
proof -
  obtain r c' w' where fp: "fetch_page e (the_client s) (the_world s) ep (cursor s) psz = (r, c', w')"
    by (cases "fetch_page e (the_client s) (the_world s) ep (cursor s) psz") auto
  from fetch_page_result[of e "the_client s" "the_world s" ep "cursor s" psz] fp assms(1)
  have r: "r = Inr p" by simp
  from fetch_page_sent[of e "the_client s" "the_world s" ep "cursor s" psz] fp
  have len: "length (sent w') = Suc (length (sent (the_world s)))" by auto
  from fetch_page_client[of e "the_client s" "the_world s" ep "cursor s" psz] fp
  have cl: "base_url c' = base_url (the_client s)"
    "session_authorization c' = session_authorization (the_client s)" by auto
  from assms(2) obtain xs where d: "data p = JArr xs" "xs \<noteq> []" "truthy (next_cursor p)"
    by (auto simp: has_more_def is_item_list_def items_of_def split: json.splits)
  show ?thesis
    using assms(3) fp r len cl d
    by (simp add: fetch_all_body_def items_of_def cooldown_def)
qed

lemma body_final:
  assumes "page_of (respond e (length (sent (the_world s)))
              (page_request (the_client s) ep (cursor s) psz)) = Inr p"
    and "is_final p" and "\<not> limit_reached mp (page_count s)"
  shows "\<exists>s'. fetch_all_body e ep psz mp s = Stop Completed s'
           \<and> page_count s' = page_count s + 1
           \<and> yielded s' = yielded s @ items_of p
           \<and> length (sent (the_world s')) = Suc (length (sent (the_world s)))"
proof -
  obtain r c' w' where fp: "fetch_page e (the_client s) (the_world s) ep (cursor s) psz = (r, c', w')"
    by (cases "fetch_page e (the_client s) (the_world s) ep (cursor s) psz") auto
  from fetch_page_result[of e "the_client s" "the_world s" ep "cursor s" psz] fp assms(1)
  have r: "r = Inr p" by simp
  from fetch_page_sent[of e "the_client s" "the_world s" ep "cursor s" psz] fp
  have len: "length (sent w') = Suc (length (sent (the_world s)))" by auto
  from assms(2) obtain xs where d: "data p = JArr xs" "\<not> truthy (next_cursor p) \<or> xs = []"
    by (auto simp: is_final_def is_item_list_def items_of_def split: json.splits)
  show ?thesis
    using assms(3) fp r len d
    by (auto simp add: fetch_all_body_def items_of_def)
qed

lemma loop_served:
  assumes "served e (the_client s) ep psz (length (sent (the_world s))) (cursor s) ps"
    and "\<forall>p\<in>set ps. has_more p"
    and "\<forall>k<length ps. \<not> limit_reached mp (page_count s + int k)"
  shows "\<exists>s'. fetch_all_loop e ep psz mp s = fetch_all_loop e ep psz mp s'
           \<and> cursor s' = (if ps = [] then cursor s else next_cursor (last ps))
           \<and> page_count s' = page_count s + int (length ps)
           \<and> yielded s' = yielded s @ concat (map items_of ps)
           \<and> length (sent (the_world s')) = length (sent (the_world s)) + length ps
           \<and> base_url (the_client s') = base_url (the_client s)
           \<and> session_authorization (the_client s') = session_authorization (the_client s)"
  using assms
proof (induction ps arbitrary: s)
  case Nil
  then show ?case by auto
next
  case (Cons p ps)
  from Cons.prems(1) have p: "page_of (respond e (length (sent (the_world s)))
              (page_request (the_client s) ep (cursor s) psz)) = Inr p"
    and rest: "served e (the_client s) ep psz (Suc (length (sent (the_world s)))) (next_cursor p) ps"
    by simp_all
  from Cons.prems(3) have lim0: "\<not> limit_reached mp (page_count s)" by force
  from body_more[OF p _ lim0] Cons.prems(2)
  obtain s1 where s1: "fetch_all_body e ep psz mp s = Continue s1"
    "cursor s1 = next_cursor p" "page_count s1 = page_count s + 1"
    "yielded s1 = yielded s @ items_of p"
    "length (sent (the_world s1)) = Suc (length (sent (the_world s)))"
    "base_url (the_client s1) = base_url (the_client s)"
    "session_authorization (the_client s1) = session_authorization (the_client s)"
    by auto
  have step: "fetch_all_loop e ep psz mp s = fetch_all_loop e ep psz mp s1"
    by (subst fetch_all_loop.simps) (simp add: s1(1))
  have served1: "served e (the_client s1) ep psz (length (sent (the_world s1))) (cursor s1) ps"
    using rest served_cong[OF s1(6) s1(7), of e ep psz "Suc (length (sent (the_world s)))" "next_cursor p" ps]
    by (simp only: s1(2) s1(5))
  have lim1: "\<forall>k<length ps. \<not> limit_reached mp (page_count s1 + int k)"
  proof (intro allI impI)
    fix k assume "k < length ps"
    then have "Suc k < length (p # ps)" by simp
    with Cons.prems(3) have "\<not> limit_reached mp (page_count s + int (Suc k))" by blast
    then show "\<not> limit_reached mp (page_count s1 + int k)"
      by (simp add: s1(3) add.commute add.left_commute)
  qed
  from Cons.IH[OF served1 _ lim1] Cons.prems(2)
  obtain s' where s': "fetch_all_loop e ep psz mp s1 = fetch_all_loop e ep psz mp s'"
    "cursor s' = (if ps = [] then cursor s1 else next_cursor (last ps))"
    "page_count s' = page_count s1 + int (length ps)"
    "yielded s' = yielded s1 @ concat (map items_of ps)"
    "length (sent (the_world s')) = length (sent (the_world s1)) + length ps"
    "base_url (the_client s') = base_url (the_client s1)"
    "session_authorization (the_client s') = session_authorization (the_client s1)"
    by auto
  have a: "fetch_all_loop e ep psz mp s = fetch_all_loop e ep psz mp s'"
    using step s'(1) by (rule trans)
  have b: "cursor s' = (if p # ps = [] then cursor s else next_cursor (last (p # ps)))"
    using s'(2) s1(2) by simp
  have c: "page_count s' = page_count s + int (length (p # ps))"
    using s'(3) s1(3) by simp
  have d: "yielded s' = yielded s @ concat (map items_of (p # ps))"
    using s'(4) s1(4) by simp
  have f: "length (sent (the_world s')) = length (sent (the_world s)) + length (p # ps)"
    using s'(5) s1(5) by simp
  have g: "base_url (the_client s') = base_url (the_client s)"
    using s'(6) s1(6) by simp
  have h: "session_authorization (the_client s') = session_authorization (the_client s)"
    using s'(7) s1(7) by simp
  show ?case by (intro exI[of _ s'] conjI a b c d f g h)
qed

lemma served_append:
  "served e c ep psz k cur (xs @ ys) =
     (served e c ep psz k cur xs \<and>
      served e c ep psz (k + length xs) (if xs = [] then cur else next_cursor (last xs)) ys)"
  by (induction xs arbitrary: k cur) auto

text \<open>
  C1. When the page fetcher returns a finite sequence of pages in which every page before
  the last has items and a cursor (a non-empty token, which is what line 114 takes as a
  cursor) and the last page has no cursor or no item, \<^verbatim>\<open>fetch_all\<close> returns, with the
  outcome \<open>Completed\<close>; it has yielded the items of all pages, in page order and in the
  order within each page, and has issued one GET per page.
\<close>

theorem fetch_all_concatenates_pages:
  assumes ne: "ps \<noteq> []"
    and more: "\<forall>p\<in>set (butlast ps). has_more p"
    and fin: "is_final (last ps)"
    and srv: "served e c endpoint page_size (length (sent w)) JNull ps"
    and lim: "\<forall>k<length ps. \<not> limit_reached max_pages (int k)"
  shows "\<exists>s. fetch_all e c w endpoint page_size max_pages = Some (Completed, s)
           \<and> yielded s = concat (map items_of ps)
           \<and> fetches w s = length ps"
proof -
  let ?s0 = "start c w"
  let ?bs = "butlast ps"
  have split: "ps = ?bs @ [last ps]" using ne by simp
  have srv': "served e c endpoint page_size (length (sent w)) JNull (?bs @ [last ps])"
    using srv split by simp
  have srv1: "served e (the_client ?s0) endpoint page_size (length (sent (the_world ?s0))) (cursor ?s0) ?bs"
    using srv' by (simp add: served_append start_def)
  have lim1: "\<forall>k<length ?bs. \<not> limit_reached max_pages (page_count ?s0 + int k)"
    using lim by (simp add: start_def)
  from loop_served[OF srv1 more lim1]
  obtain s1 where s1: "fetch_all_loop e endpoint page_size max_pages ?s0
        = fetch_all_loop e endpoint page_size max_pages s1"
    "cursor s1 = (if ?bs = [] then cursor ?s0 else next_cursor (last ?bs))"
    "page_count s1 = page_count ?s0 + int (length ?bs)"
    "yielded s1 = yielded ?s0 @ concat (map items_of ?bs)"
    "length (sent (the_world s1)) = length (sent (the_world ?s0)) + length ?bs"
    "base_url (the_client s1) = base_url (the_client ?s0)"
    "session_authorization (the_client s1) = session_authorization (the_client ?s0)"
    by blast
  have "page_request (the_client s1) = page_request c"
    using s1(6,7) by (intro page_request_cong) (simp_all add: start_def)
  moreover have "page_of (respond e (length (sent w) + length ?bs)
       (page_request c endpoint (if ?bs = [] then JNull else next_cursor (last ?bs)) page_size))
       = Inr (last ps)"
    using srv' by (simp add: served_append)
  ultimately have lastp: "page_of (respond e (length (sent (the_world s1)))
       (page_request (the_client s1) endpoint (cursor s1) page_size)) = Inr (last ps)"
    using s1(2,5) by (cases "butlast ps = []") (simp_all add: start_def)
  have "length ?bs < length ps" using ne by simp
  with lim have "\<not> limit_reached max_pages (int (length ?bs))" by blast
  then have lim2: "\<not> limit_reached max_pages (page_count s1)"
    using s1(3) by (simp add: start_def)
  from body_final[OF lastp fin lim2]
  obtain s2 where s2: "fetch_all_body e endpoint page_size max_pages s1 = Stop Completed s2"
    "yielded s2 = yielded s1 @ items_of (last ps)"
    "length (sent (the_world s2)) = Suc (length (sent (the_world s1)))"
    by blast
  have "fetch_all_loop e endpoint page_size max_pages s1 = Some (Completed, s2)"
    by (subst fetch_all_loop.simps) (simp add: s2(1))
  then have r: "fetch_all e c w endpoint page_size max_pages = Some (Completed, s2)"
    using s1(1) by (simp add: fetch_all_def)
  have "concat (map items_of ps) = concat (map items_of ?bs) @ items_of (last ps)"
    by (subst split) simp
  then have y: "yielded s2 = concat (map items_of ps)"
    using s2(2) s1(4) by (simp add: start_def)
  have "length ps = Suc (length ?bs)" using ne by simp
  then have f: "fetches w s2 = length ps"
    using s2(3) s1(5) by (simp add: fetches_def start_def)
  from r y f show ?thesis by blast
qed

text \<open>The three pages \<open>[a, b]\<close>, \<open>[c]\<close>, \<open>[]\<close> with cursors \<open>p2\<close>, \<open>p3\<close>, none:
  \<open>[a, b, c]\<close> after three GETs.\<close>

theorem fetch_all_concatenates_pages_witness:
  "\<exists>s. fetch_all (instant three_pages) client10 world0 ''/items'' 2 None = Some (Completed, s)
     \<and> yielded s = [JStr ''a'', JStr ''b'', JStr ''c'']
     \<and> fetches world0 s = 3"
  using fetch_all_concatenates_pages[of
      "[page [JStr ''a'', JStr ''b''] (JStr ''p2'') 999, page [JStr ''c''] (JStr ''p3'') 3, page [] JNull 999]"
      "instant three_pages" client10 "''/items''" 2 world0 None]
  by (simp add: has_more_def is_final_def is_item_list_def items_of_def page_def limit_reached_def
      instant_def three_pages_def ok_def client10_def world0_def page_defs numeral_3_eq_3)

subsection \<open>The walker: the page limit\<close>






lemma loop_transfer:
  assumes "fetch_all_loop e ep psz mp s = Some y"
    and "\<And>s. fetch_all_body e ep psz mp s = fetch_all_body e' ep' psz' mp' s"
  shows "fetch_all_loop e' ep' psz' mp' s = Some y"
proof -
  define P where "P = (\<lambda>(a::env) (b::string) (c::int) (d::int option) (t::walker)
      (r::outcome \<times> walker).
        (\<forall>u. fetch_all_body a b c d u = fetch_all_body e' ep' psz' mp' u)
          \<longrightarrow> fetch_all_loop e' ep' psz' mp' t = Some r)"
  have "P e ep psz mp s y"
  proof (rule fetch_all_loop.raw_induct[where P = P, OF _ assms(1)])
    fix loop a b c d t r
    assume IH: "\<And>a b c d t r. loop a b c d t = Some r \<Longrightarrow> P a b c d t r"
      and st: "(case fetch_all_body a b c d t of Stop out s' \<Rightarrow> Some (out, s')
                | Continue s' \<Rightarrow> loop a b c d s') = Some r"
    show "P a b c d t r"
      unfolding P_def
    proof
      assume eq: "\<forall>u. fetch_all_body a b c d u = fetch_all_body e' ep' psz' mp' u"
      show "fetch_all_loop e' ep' psz' mp' t = Some r"
      proof (cases "fetch_all_body a b c d t")
        case (Stop out s')
        with st have "r = (out, s')" by simp
        moreover have "fetch_all_body e' ep' psz' mp' t = Stop out s'"
          using eq Stop by simp
        ultimately show ?thesis
          by (subst fetch_all_loop.simps) simp
      next
        case (Continue s')
        with st have "loop a b c d s' = Some r" by simp
        from IH[OF this] eq have "fetch_all_loop e' ep' psz' mp' s' = Some r"
          unfolding P_def by blast
        moreover have "fetch_all_body e' ep' psz' mp' t = Continue s'"
          using eq Continue by simp
        ultimately show ?thesis
          by (subst fetch_all_loop.simps) simp
      qed
    qed
  qed
  with assms(2) show ?thesis unfolding P_def by blast
qed

lemma loop_cong:
  assumes "\<And>s. fetch_all_body e ep psz mp s = fetch_all_body e' ep' psz' mp' s"
  shows "fetch_all_loop e ep psz mp s = fetch_all_loop e' ep' psz' mp' s"
proof (cases "fetch_all_loop e ep psz mp s")
  case (Some y)
  from loop_transfer[OF Some assms] Some show ?thesis by simp
next
  case None
  show ?thesis
  proof (cases "fetch_all_loop e' ep' psz' mp' s")
    case (Some y)
    from loop_transfer[OF Some assms[symmetric]] None show ?thesis by simp
  next
    case None': None
    with None show ?thesis by simp
  qed
qed

text \<open>
  C10. \<^verbatim>\<open>max_pages = 0\<close> is false in the test of line 99, so the limit is never reached,
  and \<^verbatim>\<open>fetch_all\<close> with \<^verbatim>\<open>max_pages = 0\<close> does exactly what it does with
  \<^verbatim>\<open>max_pages = None\<close>: the same result when it returns, and no return when the other
  does not return.
\<close>

theorem max_pages_zero_is_unset:
  "\<not> limit_reached (Some 0) n \<and>
   fetch_all e c w endpoint page_size (Some 0) = fetch_all e c w endpoint page_size None"
proof
  show "\<not> limit_reached (Some 0) n" by (simp add: limit_reached_def)
  have "\<And>s. fetch_all_body e endpoint page_size (Some 0) s
            = fetch_all_body e endpoint page_size None s"
    by (simp add: fetch_all_body_def limit_reached_def)
  then show "fetch_all e c w endpoint page_size (Some 0) = fetch_all e c w endpoint page_size None"
    unfolding fetch_all_def by (rule loop_cong)
qed

text \<open>On the three pages, \<^verbatim>\<open>max_pages = 0\<close> fetches all of them.\<close>

theorem max_pages_zero_is_unset_witness:
  "\<not> limit_reached (Some 0) 3
   \<and> map_option fst (fetch_all (instant three_pages) client10 world0 ''/items'' 2 (Some 0))
       = Some Completed
   \<and> map_option (fetches world0 \<circ> snd)
       (fetch_all (instant three_pages) client10 world0 ''/items'' 2 (Some 0)) = Some 3"
proof -
  have "map_option fst (fetch_all (instant three_pages) client10 world0 ''/items'' 2 None)
       = Some Completed
   \<and> map_option (fetches world0 \<circ> snd)
       (fetch_all (instant three_pages) client10 world0 ''/items'' 2 None) = Some 3"
    by (simp add: run_defs env_defs three_pages_def page_defs)
  then show ?thesis
    using max_pages_zero_is_unset[of 3 "instant three_pages" client10 world0 "''/items''" 2]
    by simp
qed

subsection \<open>The walker: cancellation and cooldown\<close>

text \<open>
  C9, as the code has it. \<^verbatim>\<open>fetch_all\<close> takes no cancellation signal and reads none:
  whatever the caller signals, it issues the same requests and ends with the same outcome,
  or does not end in either case.
\<close>

theorem no_cancellation_signal:
  "fetch_all (e\<lparr>cancel_requested := sig\<rparr>) c w endpoint page_size max_pages
     = fetch_all e c w endpoint page_size max_pages"
proof -
  have "\<And>s. fetch_all_body (e\<lparr>cancel_requested := sig\<rparr>) endpoint page_size max_pages s
            = fetch_all_body e endpoint page_size max_pages s"
    by (simp add: fetch_all_body_def fetch_page_def rate_limited_get_def Let_def cong: if_cong)
  then show ?thesis
    unfolding fetch_all_def by (rule loop_cong)
qed

theorem no_cancellation_signal_witness:
  "fetch_all (cancelled three_pages) client10 world0 ''/items'' 2 (Some 1)
     = fetch_all (instant three_pages) client10 world0 ''/items'' 2 (Some 1)"
  using no_cancellation_signal[where e = "instant three_pages" and sig = "\<lambda>k. True"
      and c = client10 and w = world0 and endpoint = "''/items''" and page_size = 2
      and max_pages = "Some 1"]
  by (simp add: cancelled_def)

text \<open>C9 as stated fails: with the cancellation signal raised before the first request,
  the walker still issues all three requests and ends as \<open>Completed\<close>.\<close>

theorem cancellation_ignored_counterexample:
  "map_option fst (fetch_all (cancelled three_pages) client10 world0 ''/items'' 2 None)
     = Some Completed
   \<and> map_option (fetches world0 \<circ> snd)
       (fetch_all (cancelled three_pages) client10 world0 ''/items'' 2 None) = Some 3"
  by (simp add: run_defs env_defs cancelled_def three_pages_def page_defs)

lemma after_issue_times:
  assumes "\<not> limit_reached mp (page_count s)"
  shows "issue_times (the_world (after e ep psz mp s)) =
     issue_times (snd (snd (rate_limited_get e (the_client s) (the_world s)
        (page_url (the_client s) ep) psz (cursor_of (cursor s)))))"
proof -
  obtain r c' w' where fp: "fetch_page e (the_client s) (the_world s) ep (cursor s) psz = (r, c', w')"
    by (cases "fetch_page e (the_client s) (the_world s) ep (cursor s) psz") auto
  from fetch_page_world[of e "the_client s" "the_world s" ep "cursor s" psz] fp
  have w': "snd (snd (rate_limited_get e (the_client s) (the_world s)
        (page_url (the_client s) ep) psz (cursor_of (cursor s)))) = w'" by simp
  have "issue_times (the_world (after e ep psz mp s)) = issue_times w'"
    using assms fp
    by (auto simp: after_def fetch_all_body_def cooldown_def issue_times_def Let_def
        split: sum.splits)
  with w' show ?thesis by simp
qed

lemma continue_state:
  assumes "fetch_all_body e ep psz mp s = Continue s'"
    and "fst (fetch_page e (the_client s) (the_world s) ep (cursor s) psz) = Inr result"
  shows "the_client s' = fst (snd (fetch_page e (the_client s) (the_world s) ep (cursor s) psz))"
    and "the_world s' = cooldown result (snd (snd (fetch_page e (the_client s) (the_world s) ep (cursor s) psz)))"
    and "truthy (next_cursor result)"
  using assms
  by (auto simp: fetch_all_body_def Let_def split: if_splits sum.splits prod.splits)

lemma returned_page_recorded:
  assumes "fst (fetch_page e c w ep cur psz) = Inr result" and "truthy (next_cursor result)"
  shows "last_request_time (fst (snd (fetch_page e c w ep cur psz)))
           = clock (snd (snd (fetch_page e c w ep cur psz)))"
  using assms
  by (auto simp: fetch_page_def rate_limited_get_def Let_def page_of_def try_body_def
      except_request_exception_def sentinel_def split: get_result.splits)

text \<open>
  C6, as the code has it. When the page fetched in an iteration reports a remaining budget
  below 5 and the walker goes on to a next request, that request is issued at least 5 after
  the time recorded for the request of the low-budget page (the time its GET completed), and
  at least the minimum interval after it. The cooldown runs during the minimum interval, not
  after it.
\<close>

theorem low_quota_cooldown:
  assumes pause: "\<forall>k. 0 \<le> pause e k" and over: "\<forall>k. 0 \<le> overshoot e k"
    and cont: "fetch_all_body e ep psz mp s = Continue s'"
    and page: "fst (fetch_page e (the_client s) (the_world s) ep (cursor s) psz) = Inr result"
    and low: "rate_limit_remaining result < 5"
    and nl: "\<not> limit_reached mp (page_count s')"
  shows "last_request_time (the_client s')
           = clock (snd (snd (fetch_page e (the_client s) (the_world s) ep (cursor s) psz)))
       \<and> last_request_time (the_client s') + 5
           \<le> last (issue_times (the_world (after e ep psz mp s')))
       \<and> last_request_time (the_client s') + min_interval (the_client s')
           \<le> last (issue_times (the_world (after e ep psz mp s')))"
proof -
  let ?fp = "fetch_page e (the_client s) (the_world s) ep (cursor s) psz"
  note st = continue_state[OF cont page]
  have rec: "last_request_time (the_client s') = clock (snd (snd ?fp))"
    using returned_page_recorded[OF page st(3)] st(1) by simp
  have clk: "clock (the_world s') = clock (snd (snd ?fp)) + 5"
    using st(2) low by (simp add: cooldown_def)
  obtain r c'' w'' where g: "rate_limited_get e (the_client s') (the_world s')
        (page_url (the_client s') ep) psz (cursor_of (cursor s')) = (r, c'', w'')"
    by (cases "rate_limited_get e (the_client s') (the_world s')
        (page_url (the_client s') ep) psz (cursor_of (cursor s'))") auto
  from gate_waits[OF g] pause over
  have "last (issue_times w'') \<ge> last_request_time (the_client s') + min_interval (the_client s')"
    and "last (issue_times w'') \<ge> clock (the_world s')" by auto
  moreover have "issue_times (the_world (after e ep psz mp s')) = issue_times w''"
    using after_issue_times[OF nl, of e ep psz] g by simp
  ultimately show ?thesis using rec clk by simp
qed

theorem low_quota_cooldown_witness:
  "last_request_time (the_client (after (instant three_pages) ''/items'' 2 None walker1)) + 5
      \<le> last (issue_times (the_world
         (after (instant three_pages) ''/items'' 2 None
           (after (instant three_pages) ''/items'' 2 None walker1))))
   \<and> last_request_time (the_client (after (instant three_pages) ''/items'' 2 None walker1)) = 10001 / 10
   \<and> last (issue_times (the_world
         (after (instant three_pages) ''/items'' 2 None
           (after (instant three_pages) ''/items'' 2 None walker1)))) = 10051 / 10
   \<and> min_interval (the_client (after (instant three_pages) ''/items'' 2 None walker1)) = 1 / 10"
proof -
  have a: "last_request_time (the_client (after (instant three_pages) ''/items'' 2 None walker1))
      = 10001 / 10"
    by (simp add: walker1_def walk_defs env_defs three_pages_def page_defs)
  have b: "last (issue_times (the_world
         (after (instant three_pages) ''/items'' 2 None
           (after (instant three_pages) ''/items'' 2 None walker1)))) = 10051 / 10"
    by (simp add: walker1_def walk_defs env_defs three_pages_def page_defs)
  have c: "min_interval (the_client (after (instant three_pages) ''/items'' 2 None walker1)) = 1 / 10"
    by (simp add: walker1_def walk_defs env_defs three_pages_def page_defs)
  have d: "last_request_time (the_client (after (instant three_pages) ''/items'' 2 None walker1)) + 5
      \<le> last (issue_times (the_world
         (after (instant three_pages) ''/items'' 2 None
           (after (instant three_pages) ''/items'' 2 None walker1))))"
    using low_quota_cooldown[where e = "instant three_pages" and s = walker1
        and s' = "after (instant three_pages) ''/items'' 2 None walker1"
        and ep = "''/items''" and psz = 2 and mp = None
        and result = "page [JStr ''c''] (JStr ''p3'') 3"]
    by (simp add: walker1_def walk_defs env_defs three_pages_def page_defs page_def)
  from d a b c show ?thesis by (intro conjI)
qed

text \<open>C6 as stated fails: the second page reports a remaining budget of 3, and the third
  request is issued 5 after the second, not 5 beyond the minimum interval of 1/10.\<close>

theorem cooldown_overlaps_counterexample:
  "map_option (gaps \<circ> issue_times \<circ> the_world \<circ> snd)
     (fetch_all (instant three_pages) client10 world0 ''/items'' 2 None) = Some [1 / 10, 5]
   \<and> \<not> (5 + min_interval client10 \<le> 5)"
  by (simp add: run_defs env_defs three_pages_def page_defs)

subsection \<open>The fan-out\<close>

lemma as_completed_results:
  assumes "stateless e"
  shows "fst (as_completed e endpoints order (results, c, w)) ep =
     (if ep \<in> (\<lambda>i. endpoints ! i) ` set order
      then Some (result_or_sentinel (page_of (respond e 0 (page_request c ep JNull 100))))
      else results ep)"
proof (induction order arbitrary: results c w)
  case Nil
  show ?case by simp
next
  case (Cons i order)
  let ?ep = "endpoints ! i"
  obtain r c' w' where fp: "fetch_page e c w ?ep JNull 100 = (r, c', w')"
    by (cases "fetch_page e c w ?ep JNull 100") auto
  have "respond e (length (sent w)) (page_request c ?ep JNull 100)
      = respond e 0 (page_request c ?ep JNull 100)"
    using assms unfolding stateless_def by blast
  with fetch_page_result[of e c w ?ep JNull 100] fp
  have r: "r = page_of (respond e 0 (page_request c ?ep JNull 100))" by simp
  from fetch_page_client[of e c w ?ep JNull 100] fp
  have "base_url c' = base_url c" "session_authorization c' = session_authorization c"
    by simp_all
  then have pr: "page_request c' = page_request c" by (rule page_request_cong)
  have "fst (as_completed e endpoints (i # order) (results, c, w)) ep
      = fst (as_completed e endpoints order (results(?ep \<mapsto> result_or_sentinel r), c', w')) ep"
    using fp by simp
  also have "\<dots> = (if ep \<in> (\<lambda>i. endpoints ! i) ` set order
      then Some (result_or_sentinel (page_of (respond e 0 (page_request c' ep JNull 100))))
      else (results(?ep \<mapsto> result_or_sentinel r)) ep)"
    by (rule Cons.IH)
  also have "\<dots> = (if ep \<in> (\<lambda>i. endpoints ! i) ` set (i # order)
      then Some (result_or_sentinel (page_of (respond e 0 (page_request c ep JNull 100))))
      else results ep)"
    using r pr by auto
  finally show ?case .
qed

lemma fetch_parallel_results:
  assumes "stateless e" and "0 < workers_of mw c"
    and "is_completion_order (length endpoints) order"
  shows "\<exists>res c' w'. fetch_parallel e c w endpoints mw order = Inr (res, c', w')
     \<and> (\<forall>ep. res ep = (if ep \<in> set endpoints
          then Some (result_or_sentinel (page_of (respond e 0 (page_request c ep JNull 100))))
          else None))"
proof -
  obtain res c' w' where ac: "as_completed e endpoints order (Map.empty, c, w) = (res, c', w')"
    by (cases "as_completed e endpoints order (Map.empty, c, w)") auto
  have img: "(\<lambda>i. endpoints ! i) ` set order = set endpoints"
    using assms(3) by (auto simp: is_completion_order_def set_conv_nth)
  have "res ep = (if ep \<in> set endpoints
          then Some (result_or_sentinel (page_of (respond e 0 (page_request c ep JNull 100))))
          else None)" for ep
    using as_completed_results[OF assms(1), of endpoints order Map.empty c w ep] ac img
    by simp
  moreover have "fetch_parallel e c w endpoints mw order = Inr (res, c', w')"
    using assms(2) ac by (simp add: fetch_parallel_def)
  ultimately show ?thesis by blast
qed

lemma stateless_by_url: "stateless (instant by_url)"
  by (simp add: stateless_def instant_def by_url_def)

lemma order_201: "is_completion_order (length [''/a'', ''/bad'', ''/b'']) [2, 0, 1]"
  by (auto simp: is_completion_order_def)

lemma order_012: "is_completion_order (length [''/a'', ''/bad'', ''/b'']) [0, 1, 2]"
  by (auto simp: is_completion_order_def)

lemma workers_default: "0 < workers_of None client10"
  by (simp add: workers_of_def client10_def)

text \<open>
  C8. For a transport whose reaction depends on the request only and a positive number of
  workers, whatever the order in which the submitted calls complete, the keys of the map
  \<^verbatim>\<open>fetch_parallel\<close> returns are the endpoints, and two completion orders give the same
  map.
\<close>

theorem fetch_parallel_order_independent:
  assumes "stateless e" and "0 < workers_of mw c"
    and "is_completion_order (length endpoints) order1"
    and "is_completion_order (length endpoints) order2"
  shows "\<exists>res1 c1 w1 res2 c2 w2.
           fetch_parallel e c w endpoints mw order1 = Inr (res1, c1, w1)
         \<and> fetch_parallel e c w endpoints mw order2 = Inr (res2, c2, w2)
         \<and> dom res1 = set endpoints \<and> dom res2 = set endpoints \<and> res1 = res2"
proof -
  from fetch_parallel_results[OF assms(1,2,3), of w]
  obtain res1 c1 w1 where 1: "fetch_parallel e c w endpoints mw order1 = Inr (res1, c1, w1)"
    "\<forall>ep. res1 ep = (if ep \<in> set endpoints
          then Some (result_or_sentinel (page_of (respond e 0 (page_request c ep JNull 100))))
          else None)" by blast
  from fetch_parallel_results[OF assms(1,2,4), of w]
  obtain res2 c2 w2 where 2: "fetch_parallel e c w endpoints mw order2 = Inr (res2, c2, w2)"
    "\<forall>ep. res2 ep = (if ep \<in> set endpoints
          then Some (result_or_sentinel (page_of (respond e 0 (page_request c ep JNull 100))))
          else None)" by blast
  have "res1 = res2" using 1(2) 2(2) by (intro ext) simp
  moreover have "dom res1 = set endpoints" using 1(2) by (auto simp: dom_def)
  moreover have "dom res2 = set endpoints" using 2(2) by (auto simp: dom_def)
  ultimately show ?thesis using 1(1) 2(1) by blast
qed

theorem fetch_parallel_order_independent_witness:
  "\<exists>res1 c1 w1 res2 c2 w2.
      fetch_parallel (instant by_url) client10 world0 [''/a'', ''/bad'', ''/b''] None [2, 0, 1]
        = Inr (res1, c1, w1)
    \<and> fetch_parallel (instant by_url) client10 world0 [''/a'', ''/bad'', ''/b''] None [0, 1, 2]
        = Inr (res2, c2, w2)
    \<and> dom res1 = set [''/a'', ''/bad'', ''/b''] \<and> dom res2 = set [''/a'', ''/bad'', ''/b'']
    \<and> res1 = res2"
  by (rule fetch_parallel_order_independent[OF stateless_by_url workers_default order_201 order_012])

text \<open>
  C7, as the code has it. In a fan-out where the fetch of one endpoint always fails (the GET
  raises, or the \<^verbatim>\<open>try\<close> block raises on the response) and every other endpoint,
  fetched alone, returns its page, \<^verbatim>\<open>fetch_parallel\<close> returns a map with every endpoint
  as key: the sentinel page for the failing endpoint, and for each other endpoint the page
  it returns when fetched alone. The sentinel page is all that is stored for the failing
  endpoint: lines 141-143 keep neither a status nor the error.
\<close>

theorem fetch_parallel_isolates_failure:
  assumes "stateless e" and "0 < workers_of mw c"
    and "is_completion_order (length endpoints) order"
    and "bad \<in> set endpoints"
    and "\<forall>k. isl (try_body (respond e k (page_request c bad JNull 100)))"
    and "\<forall>ep\<in>set endpoints. ep \<noteq> bad \<longrightarrow> fst (fetch_page e c w ep JNull 100) = Inr (expected ep)"
  shows "\<exists>res c' w'. fetch_parallel e c w endpoints mw order = Inr (res, c', w')
           \<and> dom res = set endpoints
           \<and> res bad = Some sentinel
           \<and> (\<forall>ep\<in>set endpoints. ep \<noteq> bad \<longrightarrow> res ep = Some (expected ep))"
proof -
  from fetch_parallel_results[OF assms(1,2,3), of w]
  obtain res c' w' where r: "fetch_parallel e c w endpoints mw order = Inr (res, c', w')"
    and v: "\<forall>ep. res ep = (if ep \<in> set endpoints
          then Some (result_or_sentinel (page_of (respond e 0 (page_request c ep JNull 100))))
          else None)" by blast
  have d: "dom res = set endpoints" using v by (auto simp: dom_def)
  from assms(5) obtain ex where "try_body (respond e 0 (page_request c bad JNull 100)) = Inl ex"
    by (auto simp: isl_def)
  then have "result_or_sentinel (page_of (respond e 0 (page_request c bad JNull 100))) = sentinel"
    by (cases ex) (simp_all add: page_of_def except_request_exception_def result_or_sentinel_def)
  with v assms(4) have b: "res bad = Some sentinel" by simp
  have o: "res ep = Some (expected ep)" if "ep \<in> set endpoints" "ep \<noteq> bad" for ep
  proof -
    have "respond e (length (sent w)) (page_request c ep JNull 100)
        = respond e 0 (page_request c ep JNull 100)"
      using assms(1) unfolding stateless_def by blast
    with fetch_page_result[of e c w ep JNull 100] assms(6) that
    have "page_of (respond e 0 (page_request c ep JNull 100)) = Inr (expected ep)" by simp
    with v that show ?thesis by (simp add: result_or_sentinel_def)
  qed
  from r d b o show ?thesis by blast
qed

theorem fetch_parallel_isolates_failure_witness:
  "\<exists>res c' w'.
      fetch_parallel (instant by_url) client10 world0 [''/a'', ''/bad'', ''/b''] None [2, 0, 1]
        = Inr (res, c', w')
    \<and> res ''/bad'' = Some sentinel
    \<and> res ''/a'' = Some (page [JStr ''https://api/a''] JNull 999)
    \<and> res ''/b'' = Some (page [JStr ''https://api/b''] JNull 999)"
proof -
  have bad: "\<forall>k. isl (try_body (respond (instant by_url) k (page_request client10 ''/bad'' JNull 100)))"
    by (simp add: env_defs by_url_def page_defs)
  have others: "\<forall>ep\<in>set [''/a'', ''/bad'', ''/b'']. ep \<noteq> ''/bad'' \<longrightarrow>
      fst (fetch_page (instant by_url) client10 world0 ep JNull 100)
        = Inr (page [JStr (''https://api/'' @ lstrip_slash ep)] JNull 999)"
    by (simp add: run_defs env_defs by_url_def page_defs page_def)
  from fetch_parallel_isolates_failure[OF stateless_by_url workers_default order_201 _ bad others]
  obtain res c' w' where
    "fetch_parallel (instant by_url) client10 world0 [''/a'', ''/bad'', ''/b''] None [2, 0, 1]
        = Inr (res, c', w')"
    "res ''/bad'' = Some sentinel"
    "\<forall>ep\<in>set [''/a'', ''/bad'', ''/b'']. ep \<noteq> ''/bad'' \<longrightarrow>
        res ep = Some (page [JStr (''https://api/'' @ lstrip_slash ep)] JNull 999)"
    by auto
  then show ?thesis by (simp add: lstrip_slash_def)
qed

text \<open>C7 as stated fails: no failed outcome is recorded. Under the key of the endpoint
  that times out the map holds the sentinel page, and it holds the same page under that key
  when the endpoint is healthy and returns an empty page with a remaining budget of 0. The
  timeout does not even reach the coordinator: \<^verbatim>\<open>fetch_page\<close> returns the sentinel
  itself.\<close>

theorem failed_outcome_not_recorded_counterexample:
  "result_at (fetch_parallel (instant by_url) client10 world0
       [''/a'', ''/bad'', ''/b''] None [2, 0, 1]) ''/bad'' = Some sentinel
   \<and> result_at (fetch_parallel (instant empty_at_bad) client10 world0
       [''/a'', ''/bad'', ''/b''] None [2, 0, 1]) ''/bad'' = Some sentinel
   \<and> fst (fetch_page (instant by_url) client10 world0 ''/bad'' JNull 100) = Inr sentinel"
  by (simp add: result_at_def fetch_parallel_def workers_of_def result_or_sentinel_def
      run_defs env_defs by_url_def empty_at_bad_def page_defs sentinel_def)

end
